theory Spec2Isabelle
  imports Main "HOL-Library.AList"
begin

section \<open>Change records and fired events\<close>

text \<open>
  The records of one notification of the watching service, as the subscription callback
  of \<open>FileSystemWatcher.listen\<close> (src/core/fileSystemWatcher.ts) reads them: the fields
  \<open>name\<close>, \<open>type\<close>, \<open>exists\<close>, \<open>new\<close>, \<open>size\<close> and \<open>mtime_ms\<close> of a file entry, and the
  \<open>root\<close> and \<open>files\<close> of a change. The fields carry a prefix, since \<open>size\<close>, \<open>name\<close> and
  \<open>root\<close> are wanted as variable names.
\<close>

record FileItem =
  f_name :: string
  f_type :: string
  f_exists :: bool
  f_new :: bool
  f_size :: nat
  f_mtime_ms :: nat

record FileChange =
  change_root :: string
  change_files :: "FileItem list"

text \<open>
  A call of \<open>fire\<close> on one of the four emitters of a watcher. \<open>DidRename\<close> carries the
  \<open>RenameEvent\<close> of the source, with its fields \<open>oldUri\<close> and \<open>newUri\<close>. The type \<open>'u\<close> is
  the type of locations: \<open>URI.file (path.join (root, name))\<close> belongs to external
  libraries and is the parameter \<open>fileUri\<close> of the functions below.
\<close>

datatype 'u fired =
    DidCreate 'u
  | DidChange 'u
  | DidDelete 'u
  | DidRename (oldUri: 'u) (newUri: 'u)

text \<open>
  A watcher: its immutable configuration (the constructor's arguments), the listeners of
  its four emitters, the subscriptions it holds and its terminal flag.
\<close>

record FileSystemWatcher =
  globPattern :: string
  ignoreCreateEvents :: bool
  ignoreChangeEvents :: bool
  ignoreDeleteEvents :: bool
  onDidCreate :: "nat list"
  onDidChange :: "nat list"
  onDidDelete :: "nat list"
  onDidRename :: "nat list"
  w_disposables :: "nat list"
  w_disposed :: bool

section \<open>The subscription callback \<open>onChange\<close>\<close>

text \<open>
  Line 142: \<open>files.filter (f => f.type == 'f' && minimatch (f.name, globPattern, {dot: true}))\<close>.
  The glob matcher is an external library: \<open>minimatch name pattern\<close> is a parameter and
  stands for the call with the option \<open>dot: true\<close>.
\<close>

definition keeps :: "(string \<Rightarrow> string \<Rightarrow> bool) \<Rightarrow> string \<Rightarrow> FileItem \<Rightarrow> bool" where
  "keeps minimatch pat f \<longleftrightarrow> f_type f = ''f'' \<and> minimatch (f_name f) pat"

text \<open>Lines 143 to 154: the loop over the filtered files, one emitter call at most for each.\<close>

fun classify :: "FileSystemWatcher \<Rightarrow> (string \<Rightarrow> 'u) \<Rightarrow> FileItem list \<Rightarrow> 'u fired list" where
  "classify w uri [] = []"
| "classify w uri (file # files) =
     (if \<not> f_exists file then
        (if \<not> ignoreDeleteEvents w then [DidDelete (uri (f_name file))] else [])
      else if f_new file then
        (if \<not> ignoreCreateEvents w then [DidCreate (uri (f_name file))] else [])
      else
        (if \<not> ignoreChangeEvents w then [DidChange (uri (f_name file))] else []))
     @ classify w uri files"

text \<open>
  Lines 156 to 165 (\<open>// file rename\<close>): exactly two files, the first absent and the second
  present, with equal sizes.
\<close>

fun fileRename :: "(string \<Rightarrow> 'u) \<Rightarrow> FileItem list \<Rightarrow> 'u fired list" where
  "fileRename uri [oldFile, newFile] =
     (if \<not> f_exists oldFile \<and> f_exists newFile then
        (if f_size oldFile = f_size newFile
         then [DidRename (uri (f_name oldFile)) (uri (f_name newFile))] else [])
      else [])"
| "fileRename uri files = []"

text \<open>
  Modelled from the spec: \<open>splitArray\<close> of src/util/array.ts is not among the sources. The
  spec has it partition the list, preserving order, into the items that satisfy the
  predicate (here \<open>o.exists === false\<close>) and the others.
\<close>

fun splitArray :: "'a list \<Rightarrow> ('a \<Rightarrow> bool) \<Rightarrow> 'a list \<times> 'a list" where
  "splitArray [] fn = ([], [])"
| "splitArray (item # array) fn =
     (case splitArray array fn of
        (yes, no) \<Rightarrow> if fn item then (item # yes, no) else (yes, item # no))"

text \<open>Line 171: the predicate given to \<open>newFiles.find\<close>.\<close>

definition sameStamp :: "FileItem \<Rightarrow> FileItem \<Rightarrow> bool" where
  "sameStamp oldFile o' \<longleftrightarrow> f_size o' = f_size oldFile \<and> f_mtime_ms o' = f_mtime_ms oldFile"

text \<open>
  Lines 170 to 178: the loop over \<open>oldFiles\<close>. \<open>Array.prototype.find\<close> is \<open>find\<close> of the
  list library: the first element that satisfies the predicate, \<open>None\<close> for \<open>undefined\<close>.
  The loop is given as the list of the pairs it fires a rename for.
\<close>

fun renamePairs :: "FileItem list \<Rightarrow> FileItem list \<Rightarrow> (FileItem \<times> FileItem) list" where
  "renamePairs newFiles [] = []"
| "renamePairs newFiles (oldFile # oldFiles) =
     (case find (sameStamp oldFile) newFiles of
        Some newFile \<Rightarrow> [(oldFile, newFile)]
      | None \<Rightarrow> [])
     @ renamePairs newFiles oldFiles"

text \<open>Lines 167 to 180 (\<open>// detect folder rename\<close>).\<close>

definition folderRenamePairs :: "FileItem list \<Rightarrow> (FileItem \<times> FileItem) list" where
  "folderRenamePairs files =
     (if length files \<ge> 2 then
        (case splitArray files (\<lambda>o'. f_exists o' = False) of
           (oldFiles, newFiles) \<Rightarrow>
             if length oldFiles = length newFiles then renamePairs newFiles oldFiles else [])
      else [])"

definition renameOf :: "(string \<Rightarrow> 'u) \<Rightarrow> FileItem \<times> FileItem \<Rightarrow> 'u fired" where
  "renameOf uri p = DidRename (uri (f_name (fst p))) (uri (f_name (snd p)))"

definition folderRename :: "(string \<Rightarrow> 'u) \<Rightarrow> FileItem list \<Rightarrow> 'u fired list" where
  "folderRename uri files = map (renameOf uri) (folderRenamePairs files)"

text \<open>
  Lines 140 to 181: the callback. Its result is the list of the emitter calls it makes, in
  the order it makes them.
\<close>

definition onChange ::
  "FileSystemWatcher \<Rightarrow> (string \<Rightarrow> string \<Rightarrow> bool) \<Rightarrow> (string \<Rightarrow> string \<Rightarrow> 'u) \<Rightarrow>
     FileChange \<Rightarrow> 'u fired list" where
  "onChange w minimatch fileUri change =
     (let files = filter (keeps minimatch (globPattern w)) (change_files change);
          uri = fileUri (change_root change)
      in classify w uri files @ fileRename uri files @ folderRename uri files)"

text \<open>The rename events among the emitter calls.\<close>

fun isRename :: "'u fired \<Rightarrow> bool" where
  "isRename (DidRename a b) = True"
| "isRename e = False"

subsection \<open>The batch pairing in the words of the specification\<close>

text \<open>
  The specification pairs each vanished record with the first appeared record, not yet
  matched, of identical size and modification time. \<open>matchUnused\<close> follows these words (it
  is not taken from the source): a matched record leaves the list of candidates.
\<close>

fun matchUnused :: "FileItem list \<Rightarrow> FileItem list \<Rightarrow> (FileItem \<times> FileItem) list" where
  "matchUnused unmatched [] = []"
| "matchUnused unmatched (v # vs) =
     (case find (sameStamp v) unmatched of
        Some n \<Rightarrow> (v, n) # matchUnused (remove1 n unmatched) vs
      | None \<Rightarrow> matchUnused unmatched vs)"

definition batchRename_spec :: "FileItem list \<Rightarrow> (FileItem \<times> FileItem) list" where
  "batchRename_spec files =
     (if 2 \<le> length files \<and>
         length (filter (\<lambda>r. \<not> f_exists r) files) = length (filter f_exists files)
      then matchUnused (filter f_exists files) (filter (\<lambda>r. \<not> f_exists r) files)
      else [])"

definition stamp :: "FileItem \<Rightarrow> nat \<times> nat" where
  "stamp f = (f_size f, f_mtime_ms f)"

section \<open>Emitters and the disposal of a watcher\<close>

text \<open>
  Modelled from the spec: the \<open>Emitter\<close> of vscode-languageserver-protocol is not among the
  sources. The spec describes a broadcast stream as an ordered list of observers, each of
  which receives every event in emission order, and a disposed stream as one on which no
  further event is observable. An emitter is the list of its listeners; \<open>dispose\<close> empties
  it; \<open>fire\<close> notifies the listeners in order.
\<close>

definition listenersOf :: "FileSystemWatcher \<Rightarrow> 'u fired \<Rightarrow> nat list" where
  "listenersOf w e =
     (case e of
        DidCreate u \<Rightarrow> onDidCreate w
      | DidChange u \<Rightarrow> onDidChange w
      | DidDelete u \<Rightarrow> onDidDelete w
      | DidRename u v \<Rightarrow> onDidRename w)"

definition fire :: "FileSystemWatcher \<Rightarrow> 'u fired \<Rightarrow> (nat \<times> 'u fired) list" where
  "fire w e = map (\<lambda>l. (l, e)) (listenersOf w e)"

text \<open>What the listeners of a watcher observe when a change reaches its callback.\<close>

definition observed ::
  "FileSystemWatcher \<Rightarrow> (string \<Rightarrow> string \<Rightarrow> bool) \<Rightarrow> (string \<Rightarrow> string \<Rightarrow> 'u) \<Rightarrow>
     FileChange \<Rightarrow> (nat \<times> 'u fired) list" where
  "observed w minimatch fileUri change = concat (map (fire w) (onChange w minimatch fileUri change))"

text \<open>
  Modelled from the spec: \<open>disposeAll\<close> of src/util is not among the sources. The spec
  has a disposal release all held subscriptions: every disposable of the list is
  disposed and the list is left empty. The result is the list that is left and the
  disposables that were disposed.
\<close>

definition disposeAll :: "nat list \<Rightarrow> nat list \<times> nat list" where
  "disposeAll ds = ([], ds)"

text \<open>
  Lines 189 to 196: \<open>FileSystemWatcher.dispose\<close>. The first argument is the identity of
  \<open>this\<close> in the static set \<open>FileSystemWatcherManager.watchers\<close>, the third is that set. The
  result is the watcher, the set and the subscriptions that \<open>disposeAll\<close> disposed. The
  source disposes \<open>_onDidRename\<close>, \<open>_onDidCreate\<close> and \<open>_onDidChange\<close>.
\<close>

definition FileSystemWatcher_dispose ::
  "nat \<Rightarrow> FileSystemWatcher \<Rightarrow> nat list \<Rightarrow> FileSystemWatcher \<times> nat list \<times> nat list" where
  "FileSystemWatcher_dispose this w registry =
     (w\<lparr>w_disposed := True, onDidRename := [], onDidCreate := [], onDidChange := [],
        w_disposables := fst (disposeAll (w_disposables w))\<rparr>,
      removeAll this registry,
      snd (disposeAll (w_disposables w)))"

section \<open>The manager of the connections\<close>

text \<open>
  The fields of \<open>FileSystemWatcherManager\<close>, then what its environment holds. A client
  (\<open>Watchman\<close>) and a watcher are known by a number; \<open>Watchman | null\<close> is \<open>nat option\<close>.
  \<open>clientsMap\<close> is an association list in insertion order, as a \<open>Map\<close> of the language is.
  \<open>disposables\<close> counts the subscriptions to the changes of the workspace folders.
  \<open>waiters\<close> are the listeners of \<open>_onDidCreateClient\<close> that \<open>waitClient\<close> registered, each
  known by the root it waits for. The environment: \<open>requested\<close>, the calls of
  \<open>Watchman.createClient\<close>; \<open>pending\<close>, those of them that have not settled;
  \<open>disposedClients\<close>, the calls of \<open>client.dispose\<close>; \<open>listened\<close>, the calls of
  \<open>watcher.listen (client)\<close>; \<open>resolved\<close>, the promises of \<open>waitClient\<close> that resolved, by
  root; \<open>errors\<close> and \<open>channelLines\<close>, what the logger and the output channel received.
\<close>

record Manager =
  watchmanPath :: "string option"
  creatingRoots :: "string set"
  clientsMap :: "(string \<times> nat option) list"
  disposables :: nat
  channel :: bool
  disposed :: bool
  watchers :: "nat list"
  waiters :: "string list"
  requested :: "string list"
  pending :: "string list"
  disposedClients :: "nat list"
  listened :: "(nat \<times> nat) list"
  resolved :: "string list"
  errors :: "string list"
  channelLines :: "string list"

definition newManager :: "string option \<Rightarrow> Manager" where
  "newManager path =
     \<lparr>watchmanPath = path, creatingRoots = {}, clientsMap = [], disposables = 0,
      channel = False, disposed = False, watchers = [], waiters = [], requested = [],
      pending = [], disposedClients = [], listened = [], resolved = [], errors = [],
      channelLines = []\<rparr>"

text \<open>\<open>clientsMap.has (root)\<close> and the non-null values of \<open>clientsMap.values ()\<close>.\<close>

definition hasClient :: "string \<Rightarrow> Manager \<Rightarrow> bool" where
  "hasClient root s \<longleftrightarrow> root \<in> fst ` set (clientsMap s)"

definition liveClients :: "Manager \<Rightarrow> nat list" where
  "liveClients s = List.map_filter snd (clientsMap s)"

text \<open>
  Lines 63 to 68: \<open>createClient\<close> up to its \<open>await\<close>. The two guards, then the mark and the
  call of the external factory, which leaves a pending request.
\<close>

definition createClient :: "string \<Rightarrow> Manager \<Rightarrow> Manager" where
  "createClient root s =
     (if watchmanPath s = None then s
      else if root \<in> creatingRoots s \<or> hasClient root s then s
      else s\<lparr>creatingRoots := insert root (creatingRoots s),
             requested := requested s @ [root],
             pending := pending s @ [root]\<rparr>)"

text \<open>Lines 81 to 84: the \<open>catch\<close> block.\<close>

definition createClient_catch :: "string \<Rightarrow> Manager \<Rightarrow> Manager" where
  "createClient_catch msg s =
     s\<lparr>errors := errors s @ [msg],
       channelLines :=
         (if channel s then channelLines s @ [''Error on create watchman client:'' @ msg]
          else channelLines s)\<rparr>"

text \<open>Line 80: \<open>_onDidCreateClient.fire (root)\<close>; a waiter for \<open>root\<close> unsubscribes and resolves.\<close>

definition fireDidCreateClient :: "string \<Rightarrow> Manager \<Rightarrow> Manager" where
  "fireDidCreateClient root s =
     s\<lparr>waiters := filter (\<lambda>r. r \<noteq> root) (waiters s),
       resolved := resolved s @ filter (\<lambda>r. r = root) (waiters s)\<rparr>"

text \<open>
  Lines 69 to 80: \<open>createClient\<close> after its \<open>await\<close> returned \<open>client\<close>. When the manager is
  disposed and the client is \<open>null\<close>, \<open>client.dispose ()\<close> throws a TypeError inside the
  \<open>try\<close>, which the \<open>catch\<close> block receives.
\<close>

definition createClient_resume :: "string \<Rightarrow> nat option \<Rightarrow> Manager \<Rightarrow> Manager" where
  "createClient_resume root client s =
     (let s1 = s\<lparr>creatingRoots := creatingRoots s - {root}\<rparr> in
      if disposed s1 then
        (case client of
           None \<Rightarrow> createClient_catch ''TypeError'' s1
         | Some c \<Rightarrow> s1\<lparr>disposedClients := disposedClients s1 @ [c]\<rparr>)
      else
        (let s2 = s1\<lparr>clientsMap := AList.update root client (clientsMap s1)\<rparr>;
             s3 = (case client of
                     None \<Rightarrow> s2
                   | Some c \<Rightarrow> s2\<lparr>listened := listened s2 @ map (\<lambda>w. (w, c)) (watchers s2)\<rparr>)
         in fireDidCreateClient root s3))"

text \<open>Lines 32 to 49: \<open>attach\<close>, and the listener it registers (lines 38 to 48).\<close>

definition removeClient :: "string \<Rightarrow> Manager \<Rightarrow> Manager" where
  "removeClient root s =
     (case map_of (clientsMap s) root of
        Some (Some c) \<Rightarrow> s\<lparr>disposedClients := disposedClients s @ [c]\<rparr>
      | _ \<Rightarrow> s)"

definition onDidChangeWorkspaceFolders :: "string list \<Rightarrow> string list \<Rightarrow> Manager \<Rightarrow> Manager" where
  "onDidChangeWorkspaceFolders added removed s = fold removeClient removed (fold createClient added s)"

definition attach :: "string list \<Rightarrow> Manager \<Rightarrow> Manager" where
  "attach roots s =
     (let s1 = fold createClient roots (s\<lparr>channel := True\<rparr>)
      in s1\<lparr>disposables := Suc (disposables s1)\<rparr>)"

text \<open>Lines 51 to 61: \<open>waitClient\<close>.\<close>

definition waitClient :: "string \<Rightarrow> Manager \<Rightarrow> Manager" where
  "waitClient root s =
     (if hasClient root s then s\<lparr>resolved := resolved s @ [root]\<rparr>
      else s\<lparr>waiters := waiters s @ [root]\<rparr>)"

text \<open>Lines 87 to 98: \<open>createFileSystemWatcher\<close>, for the new watcher \<open>wid\<close>.\<close>

definition createFileSystemWatcher :: "nat \<Rightarrow> Manager \<Rightarrow> Manager" where
  "createFileSystemWatcher wid s =
     s\<lparr>listened := listened s @ map (\<lambda>c. (wid, c)) (liveClients s),
       watchers := (if wid \<in> set (watchers s) then watchers s else watchers s @ [wid])\<rparr>"

text \<open>Lines 100 to 108: \<open>dispose\<close>; \<open>disposeAll\<close> leaves no subscription to the folders.\<close>

definition dispose :: "Manager \<Rightarrow> Manager" where
  "dispose s =
     s\<lparr>disposed := True, creatingRoots := {}, waiters := [],
       disposedClients := disposedClients s @ liveClients s, disposables := 0\<rparr>"

text \<open>
  What can happen to a manager: a call of one of its public methods, a change of the
  workspace folders, a pending request of the factory settling (with a client, with
  \<open>null\<close>, or with an error), and the disposal of a watcher, which leaves the static set.
  Every call of \<open>attach\<close> registers a listener of its own (lines 38 to 48), and a change
  of the workspace folders runs each of them: the listener runs \<open>disposables\<close> times, one
  run after the other, and not at all once \<open>dispose\<close> has released the subscriptions.
\<close>

datatype action =
    Attach "string list"
  | FoldersChanged "string list" "string list"
  | ClientCreated string "nat option"
  | ClientFailed string string
  | WaitClient string
  | CreateFileSystemWatcher nat
  | DisposeWatcher nat
  | Dispose

fun step :: "action \<Rightarrow> Manager \<Rightarrow> Manager" where
  "step (Attach roots) s = attach roots s"
| "step (FoldersChanged added removed) s =
     ((onDidChangeWorkspaceFolders added removed) ^^ disposables s) s"
| "step (ClientCreated root client) s =
     (if root \<in> set (pending s)
      then createClient_resume root client (s\<lparr>pending := remove1 root (pending s)\<rparr>)
      else s)"
| "step (ClientFailed root msg) s =
     (if root \<in> set (pending s)
      then createClient_catch msg (s\<lparr>pending := remove1 root (pending s)\<rparr>)
      else s)"
| "step (WaitClient root) s = waitClient root s"
| "step (CreateFileSystemWatcher wid) s = createFileSystemWatcher wid s"
| "step (DisposeWatcher wid) s = s\<lparr>watchers := removeAll wid (watchers s)\<rparr>"
| "step Dispose s = dispose s"

definition run :: "action list \<Rightarrow> Manager \<Rightarrow> Manager" where
  "run acts s = fold step acts s"

subsection \<open>Invariants of the manager\<close>

text \<open>
  In every state reached from a new manager: no root with a pending request has an entry
  in \<open>clientsMap\<close>; every root for which a promise of \<open>waitClient\<close> resolved has an entry;
  and, until the manager is disposed, the pending requests are for distinct roots, all
  of them marked in \<open>creatingRoots\<close>.
\<close>

definition consistent :: "Manager \<Rightarrow> bool" where
  "consistent s \<longleftrightarrow>
     set (pending s) \<inter> fst ` set (clientsMap s) = {} \<and>
     set (resolved s) \<subseteq> fst ` set (clientsMap s) \<and>
     (\<not> disposed s \<longrightarrow> distinct (pending s) \<and> set (pending s) \<subseteq> creatingRoots s)"

text \<open>
  The state of a root after its request failed: no entry, no promise resolved, and either
  the manager is disposed or the root is still marked while nothing is pending for it.
\<close>

definition abandoned :: "string \<Rightarrow> Manager \<Rightarrow> bool" where
  "abandoned root s \<longleftrightarrow>
     root \<notin> fst ` set (clientsMap s) \<and> root \<notin> set (resolved s) \<and>
     (disposed s \<or> (root \<in> creatingRoots s \<and> root \<notin> set (pending s)))"

section \<open>Concrete inputs\<close>

text \<open>
  A watcher for \<open>*.txt\<close> with one listener on each emitter, a stand-in for the glob
  matcher (the name ends in \<open>.txt\<close>), a stand-in for the construction of a location, file
  entries, and a manager with a path to the watchman binary.
\<close>

definition demoWatcher :: FileSystemWatcher where
  "demoWatcher =
     \<lparr>globPattern = ''*.txt'', ignoreCreateEvents = False, ignoreChangeEvents = False,
      ignoreDeleteEvents = False, onDidCreate = [1], onDidChange = [2], onDidDelete = [3],
      onDidRename = [4], w_disposables = [9], w_disposed = False\<rparr>"

definition demoMatch :: "string \<Rightarrow> string \<Rightarrow> bool" where
  "demoMatch n pat \<longleftrightarrow> pat = ''*.txt'' \<and> take 4 (rev n) = ''txt.''"

definition demoUri :: "string \<Rightarrow> string \<Rightarrow> string" where
  "demoUri r n = r @ ''/'' @ n"

definition demoFile :: "string \<Rightarrow> bool \<Rightarrow> bool \<Rightarrow> nat \<Rightarrow> nat \<Rightarrow> FileItem" where
  "demoFile n e nw sz mt =
     \<lparr>f_name = n, f_type = ''f'', f_exists = e, f_new = nw, f_size = sz, f_mtime_ms = mt\<rparr>"

definition renamedPair :: FileChange where
  "renamedPair =
     \<lparr>change_root = ''/ws'',
      change_files = [demoFile ''a.txt'' False False 10 1, demoFile ''b.txt'' True True 10 1]\<rparr>"

definition crossedBatch :: FileChange where
  "crossedBatch =
     \<lparr>change_root = ''/ws'',
      change_files =
        [demoFile ''x.txt'' False False 5 100, demoFile ''y.txt'' False False 7 200,
         demoFile ''p.txt'' True True 7 200, demoFile ''q.txt'' True True 5 100]\<rparr>"

definition unmatchedBatch :: FileChange where
  "unmatchedBatch =
     \<lparr>change_root = ''/ws'',
      change_files =
        [demoFile ''x.txt'' False False 5 100, demoFile ''y.txt'' False False 7 200,
         demoFile ''p.txt'' True True 7 200, demoFile ''q.txt'' True True 9 300]\<rparr>"

definition twinBatch :: FileChange where
  "twinBatch =
     \<lparr>change_root = ''/ws'',
      change_files =
        [demoFile ''x.txt'' False False 5 100, demoFile ''y.txt'' False False 5 100,
         demoFile ''p.txt'' True True 5 100, demoFile ''q.txt'' True True 5 100]\<rparr>"

definition demoManager :: Manager where
  "demoManager = newManager (Some ''/usr/bin/watchman'')"

definition attachedTwice :: Manager where
  "attachedTwice =
     run [Attach [''/ws''], Attach [''/ws''], ClientCreated ''/ws'' (Some 1)] demoManager"

definition twoRoots :: Manager where
  "twoRoots =
     run [Attach [''/a'', ''/b''], WaitClient ''/a'', WaitClient ''/b'']
       (newManager (Some ''/usr/bin/watchman''))"

definition oneReady :: Manager where
  "oneReady =
     run [Attach [''/a'', ''/b''], WaitClient ''/a'', WaitClient ''/b'',
          ClientCreated ''/a'' (Some 1)]
       (newManager (Some ''/usr/bin/watchman''))"

section \<open>Properties of the subscription callback\<close>

subsection \<open>Auxiliary facts\<close>

lemma splitArray_filter: "splitArray xs P = (filter P xs, filter (\<lambda>x. \<not> P x) xs)"
  by (induction xs) auto

lemma classify_no_rename: "filter isRename (classify w uri xs) = []"
  by (induction xs) auto

lemma classify_all_plain: "filter (\<lambda>e. \<not> isRename e) (classify w uri xs) = classify w uri xs"
  by (induction xs) auto

lemma fileRename_all_rename: "filter isRename (fileRename uri xs) = fileRename uri xs"
  by (induction uri xs rule: fileRename.induct) auto

lemma fileRename_not_two: "length xs \<noteq> 2 \<Longrightarrow> fileRename uri xs = []"
  by (induction uri xs rule: fileRename.induct) auto

lemma renameOf_all_rename: "filter isRename (map (renameOf uri) ps) = map (renameOf uri) ps"
  by (induction ps) (auto simp: renameOf_def)

lemma folderRename_all_rename: "filter isRename (folderRename uri xs) = folderRename uri xs"
  by (simp add: folderRename_def renameOf_all_rename)

lemma renames_of_onChange:
  "filter isRename (onChange w mm fileUri change) =
     fileRename (fileUri (change_root change)) (filter (keeps mm (globPattern w)) (change_files change))
     @ folderRename (fileUri (change_root change)) (filter (keeps mm (globPattern w)) (change_files change))"
  by (simp add: onChange_def Let_def classify_no_rename fileRename_all_rename folderRename_all_rename)

lemma find_first_split:
  "find P xs = Some x \<Longrightarrow> \<exists>pre post. xs = pre @ x # post \<and> P x \<and> (\<forall>m\<in>set pre. \<not> P m)"
proof (induction xs)
  case Nil
  then show ?case by simp
next
  case (Cons a xs)
  show ?case
  proof (cases "P a")
    case True
    with Cons.prems have "a = x" by simp
    with True have "a # xs = [] @ x # xs \<and> P x \<and> (\<forall>m\<in>set []. \<not> P m)" by simp
    then show ?thesis by blast
  next
    case False
    with Cons.prems have "find P xs = Some x" by simp
    from Cons.IH [OF this] obtain pre post where
      "xs = pre @ x # post" "P x" "\<forall>m\<in>set pre. \<not> P m" by blast
    with False have "a # xs = (a # pre) @ x # post \<and> P x \<and> (\<forall>m\<in>set (a # pre). \<not> P m)" by simp
    then show ?thesis by blast
  qed
qed

lemma renamePairs_fst:
  "map fst (renamePairs ns vs) = filter (\<lambda>v. \<exists>n\<in>set ns. sameStamp v n) vs"
proof (induction vs)
  case Nil
  then show ?case by simp
next
  case (Cons v vs)
  show ?case
  proof (cases "find (sameStamp v) ns")
    case None
    then have "\<not> (\<exists>n\<in>set ns. sameStamp v n)" by (simp add: find_None_iff)
    with None Cons.IH show ?thesis by simp
  next
    case (Some n)
    then have "\<exists>n\<in>set ns. sameStamp v n" by (metis find_None_iff option.distinct(1))
    with Some Cons.IH show ?thesis by simp
  qed
qed

lemma renamePairs_find:
  "(v, n) \<in> set (renamePairs ns vs) \<Longrightarrow> v \<in> set vs \<and> find (sameStamp v) ns = Some n"
  by (induction vs) (auto split: option.splits)

lemma find_remove1_other: "\<not> P n \<Longrightarrow> find P (remove1 n xs) = find P xs"
  by (induction xs) auto

lemma renamePairs_cong:
  "(\<And>v. v \<in> set vs \<Longrightarrow> find (sameStamp v) ns = find (sameStamp v) ns') \<Longrightarrow>
     renamePairs ns vs = renamePairs ns' vs"
  by (induction vs) auto

lemma sameStamp_stamp: "sameStamp v n \<longleftrightarrow> stamp n = stamp v"
  by (auto simp: sameStamp_def stamp_def)

text \<open>
  Where no two vanished records share size and modification time, the pairing of the
  source and the pairing in the words of the specification agree.
\<close>

lemma matchUnused_renamePairs:
  "distinct (map stamp vs) \<Longrightarrow> matchUnused ns vs = renamePairs ns vs"
proof (induction vs arbitrary: ns)
  case Nil
  then show ?case by simp
next
  case (Cons v vs)
  from Cons.prems have d: "distinct (map stamp vs)" and nv: "stamp v \<notin> stamp ` set vs" by auto
  show ?case
  proof (cases "find (sameStamp v) ns")
    case None
    with Cons.IH [OF d] show ?thesis by simp
  next
    case (Some n)
    then have sn: "stamp n = stamp v"
      using find_first_split [OF Some] by (auto simp: sameStamp_stamp)
    have "renamePairs (remove1 n ns) vs = renamePairs ns vs"
    proof (rule renamePairs_cong)
      fix v' assume "v' \<in> set vs"
      with nv sn have "\<not> sameStamp v' n" by (auto simp: sameStamp_stamp)
      then show "find (sameStamp v') (remove1 n ns) = find (sameStamp v') ns"
        by (rule find_remove1_other)
    qed
    with Some Cons.IH [OF d, of "remove1 n ns"] show ?thesis by simp
  qed
qed

lemmas demo_defs =
  demoWatcher_def demoMatch_def demoUri_def demoFile_def renamedPair_def crossedBatch_def
  twinBatch_def keeps_def sameStamp_def renameOf_def folderRename_def folderRenamePairs_def

subsection \<open>Filtering\<close>

text \<open>
  C8. A record whose type is not \<open>'f'\<close>, or whose name the glob pattern does not match,
  produces no event of any kind and takes part in neither rename heuristic: with the
  record anywhere in the batch, the callback makes exactly the emitter calls it makes
  without it.
\<close>

theorem filtered_record_no_event:
  assumes "f_type r \<noteq> ''f'' \<or> \<not> minimatch (f_name r) (globPattern w)"
  shows "onChange w minimatch fileUri (change\<lparr>change_files := xs @ r # ys\<rparr>) =
         onChange w minimatch fileUri (change\<lparr>change_files := xs @ ys\<rparr>)"
  using assms by (auto simp: onChange_def keeps_def)

text \<open>
  A directory entry and a file outside the pattern between the two halves of a rename:
  the callback fires what it fires for the two halves alone.
\<close>

theorem filtered_record_no_event_witness:
  "f_type ((demoFile ''sub.txt'' True True 10 1)\<lparr>f_type := ''d''\<rparr>) \<noteq> ''f''
   \<and> onChange demoWatcher demoMatch demoUri
       (renamedPair\<lparr>change_files :=
          [demoFile ''a.txt'' False False 10 1] @
          (demoFile ''sub.txt'' True True 10 1)\<lparr>f_type := ''d''\<rparr> #
          [demoFile ''b.txt'' True True 10 1]\<rparr>)
     = [DidDelete ''/ws/a.txt'', DidCreate ''/ws/b.txt'',
        DidRename ''/ws/a.txt'' ''/ws/b.txt'', DidRename ''/ws/a.txt'' ''/ws/b.txt'']"
  using filtered_record_no_event [where r = "(demoFile ''sub.txt'' True True 10 1)\<lparr>f_type := ''d''\<rparr>"
      and w = demoWatcher and minimatch = demoMatch and fileUri = demoUri and change = renamedPair
      and xs = "[demoFile ''a.txt'' False False 10 1]" and ys = "[demoFile ''b.txt'' True True 10 1]"]
  by (simp add: demo_defs onChange_def)

subsection \<open>Classification and the ignore flags\<close>

text \<open>
  C7. For the records that pass the filter, in their order: an absent record fires
  delete, a present and new record fires create, a present record that is not new fires
  change, each one unless the watcher's flag for that kind is set; these are all the
  emitter calls other than renames. The renames that the callback fires are the same
  whatever the three flags are.
\<close>

theorem classification_with_ignore_flags:
  "filter (\<lambda>e. \<not> isRename e) (onChange w minimatch fileUri change) =
     concat (map (\<lambda>f.
         (if \<not> f_exists f \<and> \<not> ignoreDeleteEvents w
          then [DidDelete (fileUri (change_root change) (f_name f))] else [])
       @ (if f_exists f \<and> f_new f \<and> \<not> ignoreCreateEvents w
          then [DidCreate (fileUri (change_root change) (f_name f))] else [])
       @ (if f_exists f \<and> \<not> f_new f \<and> \<not> ignoreChangeEvents w
          then [DidChange (fileUri (change_root change) (f_name f))] else []))
       (filter (\<lambda>f. f_type f = ''f'' \<and> minimatch (f_name f) (globPattern w)) (change_files change)))
   \<and> filter isRename
       (onChange (w\<lparr>ignoreCreateEvents := ic, ignoreChangeEvents := ich, ignoreDeleteEvents := idl\<rparr>)
          minimatch fileUri change)
     = filter isRename (onChange w minimatch fileUri change)"
proof -
  have c: "classify w uri fs = concat (map (\<lambda>f.
         (if \<not> f_exists f \<and> \<not> ignoreDeleteEvents w then [DidDelete (uri (f_name f))] else [])
       @ (if f_exists f \<and> f_new f \<and> \<not> ignoreCreateEvents w then [DidCreate (uri (f_name f))] else [])
       @ (if f_exists f \<and> \<not> f_new f \<and> \<not> ignoreChangeEvents w then [DidChange (uri (f_name f))] else [])) fs)"
    for uri :: "string \<Rightarrow> 'a" and fs
    by (induction fs) auto
  have k: "keeps minimatch (globPattern w) = (\<lambda>f. f_type f = ''f'' \<and> minimatch (f_name f) (globPattern w))"
    by (auto simp: keeps_def)
  have "filter (\<lambda>e. \<not> isRename e) (onChange w minimatch fileUri change) =
     classify w (fileUri (change_root change)) (filter (keeps minimatch (globPattern w)) (change_files change))"
    using fileRename_all_rename [of "fileUri (change_root change)"]
      folderRename_all_rename [of "fileUri (change_root change)"]
    by (simp add: onChange_def Let_def classify_all_plain filter_empty_conv filter_id_conv)
  then show ?thesis
    by (simp add: c k renames_of_onChange)
qed

text \<open>
  With \<open>ignoreDeleteEvents\<close> set, the batch of a renamed file fires its create event and no
  delete event, and the same renames as without the flag.
\<close>

theorem classification_with_ignore_flags_witness:
  "filter (\<lambda>e. \<not> isRename e)
       (onChange (demoWatcher\<lparr>ignoreDeleteEvents := True\<rparr>) demoMatch demoUri renamedPair)
     = [DidCreate ''/ws/b.txt'']
   \<and> filter isRename
       (onChange (demoWatcher\<lparr>ignoreCreateEvents := False, ignoreChangeEvents := False,
          ignoreDeleteEvents := True\<rparr>) demoMatch demoUri renamedPair)
     = filter isRename (onChange demoWatcher demoMatch demoUri renamedPair)"
  using classification_with_ignore_flags [where w = "demoWatcher\<lparr>ignoreDeleteEvents := True\<rparr>"
      and minimatch = demoMatch and fileUri = demoUri and change = renamedPair]
    classification_with_ignore_flags [where w = demoWatcher and ic = False and ich = False
      and idl = True and minimatch = demoMatch and fileUri = demoUri and change = renamedPair]
  by (simp add: demo_defs)

subsection \<open>The pairwise rename\<close>

text \<open>
  C2. When exactly two records pass the filter, the first absent, the second present, and
  their sizes are equal, the callback fires the delete event of the first and the create
  or change event of the second (each unless its flag is set), then a rename from the
  first to the second, and then, from the folder heuristic, which also runs on two
  records, the same rename once more exactly when the modification times are equal too.
\<close>

theorem pairwise_rename:
  assumes "filter (keeps minimatch (globPattern w)) (change_files change) = [a, b]"
    and "\<not> f_exists a" and "f_exists b" and "f_size a = f_size b"
    and "uri = fileUri (change_root change)"
  shows "onChange w minimatch fileUri change =
           (if ignoreDeleteEvents w then [] else [DidDelete (uri (f_name a))])
         @ (if f_new b then (if ignoreCreateEvents w then [] else [DidCreate (uri (f_name b))])
            else (if ignoreChangeEvents w then [] else [DidChange (uri (f_name b))]))
         @ [DidRename (uri (f_name a)) (uri (f_name b))]
         @ (if f_mtime_ms a = f_mtime_ms b then [DidRename (uri (f_name a)) (uri (f_name b))] else [])"
  using assms
  by (simp add: onChange_def Let_def folderRename_def folderRenamePairs_def splitArray_filter
      renameOf_def sameStamp_def)

text \<open>The renamed file of equal size and modification time: both heuristics fire.\<close>

theorem pairwise_rename_witness:
  "filter (keeps demoMatch (globPattern demoWatcher)) (change_files renamedPair)
     = [demoFile ''a.txt'' False False 10 1, demoFile ''b.txt'' True True 10 1]
   \<and> onChange demoWatcher demoMatch demoUri renamedPair
     = [DidDelete ''/ws/a.txt'', DidCreate ''/ws/b.txt'',
        DidRename ''/ws/a.txt'' ''/ws/b.txt'', DidRename ''/ws/a.txt'' ''/ws/b.txt'']"
  using pairwise_rename [where w = demoWatcher and minimatch = demoMatch and fileUri = demoUri
      and change = renamedPair and a = "demoFile ''a.txt'' False False 10 1"
      and b = "demoFile ''b.txt'' True True 10 1" and uri = "demoUri ''/ws''"]
  by (simp add: demo_defs)

subsection \<open>The folder rename\<close>

text \<open>
  C1, as the source has it. When two or more records pass the filter and as many of them
  are absent as are present: the renames fired are those of the pairwise heuristic, then
  one for each pair of the folder heuristic, and with three or more records the
  pairwise heuristic fires none, so that the renames are those of the pairs alone. The
  old sides of the pairs are, in order, the absent records for which some present
  record has the same size and modification time: an absent record without such a
  record is the old side of no pair, and with three or more records it gets no rename at
  all. The new side of each pair is the first present record with the size and
  modification time of the old side, whether or not an earlier pair has it as its new
  side already. Where no two absent records share size and modification time, this is
  the pairing of the specification.
\<close>

theorem batch_rename_first_match:
  assumes "files = filter (keeps minimatch (globPattern w)) (change_files change)"
    and "vanished = filter (\<lambda>r. \<not> f_exists r) files"
    and "appeared = filter f_exists files"
    and "2 \<le> length files"
    and "length vanished = length appeared"
  shows "filter isRename (onChange w minimatch fileUri change) =
           fileRename (fileUri (change_root change)) files
           @ map (renameOf (fileUri (change_root change))) (folderRenamePairs files)
       \<and> (3 \<le> length files \<longrightarrow>
             fileRename (fileUri (change_root change)) files = [] \<and>
             filter isRename (onChange w minimatch fileUri change) =
               map (renameOf (fileUri (change_root change))) (folderRenamePairs files))
       \<and> map fst (folderRenamePairs files) =
           filter (\<lambda>v. \<exists>n\<in>set appeared. f_size n = f_size v \<and> f_mtime_ms n = f_mtime_ms v) vanished
       \<and> (\<forall>v\<in>set vanished.
             (\<forall>n\<in>set appeared. \<not> (f_size n = f_size v \<and> f_mtime_ms n = f_mtime_ms v)) \<longrightarrow>
             v \<notin> fst ` set (folderRenamePairs files))
       \<and> (\<forall>(v, n)\<in>set (folderRenamePairs files). \<exists>pre post.
             appeared = pre @ n # post \<and> f_size n = f_size v \<and> f_mtime_ms n = f_mtime_ms v \<and>
             (\<forall>m\<in>set pre. \<not> (f_size m = f_size v \<and> f_mtime_ms m = f_mtime_ms v)))
       \<and> (distinct (map (\<lambda>v. (f_size v, f_mtime_ms v)) vanished) \<longrightarrow>
             folderRenamePairs files = batchRename_spec files)"
proof -
  have fp: "folderRenamePairs files = renamePairs appeared vanished"
    using assms by (simp add: folderRenamePairs_def splitArray_filter)
  have 1: "filter isRename (onChange w minimatch fileUri change) =
           fileRename (fileUri (change_root change)) files
           @ map (renameOf (fileUri (change_root change))) (folderRenamePairs files)"
    using assms(1) by (simp add: renames_of_onChange folderRename_def)
  have 2: "map fst (folderRenamePairs files) =
           filter (\<lambda>v. \<exists>n\<in>set appeared. f_size n = f_size v \<and> f_mtime_ms n = f_mtime_ms v) vanished"
    by (simp add: fp renamePairs_fst sameStamp_def)
  have 3: "\<exists>pre post.
             appeared = pre @ n # post \<and> f_size n = f_size v \<and> f_mtime_ms n = f_mtime_ms v \<and>
             (\<forall>m\<in>set pre. \<not> (f_size m = f_size v \<and> f_mtime_ms m = f_mtime_ms v))"
    if "(v, n) \<in> set (folderRenamePairs files)" for v n
  proof -
    from that have "find (sameStamp v) appeared = Some n"
      by (simp add: fp renamePairs_find)
    from find_first_split [OF this] show ?thesis
      by (simp add: sameStamp_def)
  qed
  have 4: "folderRenamePairs files = batchRename_spec files"
    if "distinct (map (\<lambda>v. (f_size v, f_mtime_ms v)) vanished)"
  proof -
    have "(\<lambda>v. (f_size v, f_mtime_ms v)) = stamp" by (auto simp: stamp_def)
    with that have "distinct (map stamp vanished)" by simp
    then have "matchUnused appeared vanished = renamePairs appeared vanished"
      by (rule matchUnused_renamePairs)
    moreover have "batchRename_spec files = matchUnused appeared vanished"
      unfolding batchRename_spec_def using assms(2-5) by simp
    ultimately show ?thesis
      by (simp add: fp)
  qed
  have 5: "fileRename (fileUri (change_root change)) files = [] \<and>
           filter isRename (onChange w minimatch fileUri change) =
             map (renameOf (fileUri (change_root change))) (folderRenamePairs files)"
    if "3 \<le> length files"
  proof -
    from that have "length files \<noteq> 2" by simp
    then have "fileRename (fileUri (change_root change)) files = []"
      by (rule fileRename_not_two)
    with 1 show ?thesis by simp
  qed
  have 6: "v \<notin> fst ` set (folderRenamePairs files)"
    if "v \<in> set vanished"
      and "\<forall>n\<in>set appeared. \<not> (f_size n = f_size v \<and> f_mtime_ms n = f_mtime_ms v)" for v
  proof
    assume "v \<in> fst ` set (folderRenamePairs files)"
    then have "v \<in> set (map fst (folderRenamePairs files))" by simp
    with 2 have "\<exists>n\<in>set appeared. f_size n = f_size v \<and> f_mtime_ms n = f_mtime_ms v"
      by simp
    with that(2) show False by blast
  qed
  from 1 2 3 4 5 6 show ?thesis by blast
qed

text \<open>
  The batch of the specification: \<open>x\<close> and \<open>y\<close> vanished, \<open>p\<close> and \<open>q\<close> appeared, with the
  stamps crossed. The renames are from \<open>x\<close> to \<open>q\<close> and from \<open>y\<close> to \<open>p\<close>. And a batch
  in which nothing that appeared has the stamp of \<open>x\<close>: the only rename is from \<open>y\<close> to
  \<open>p\<close>, and \<open>x\<close> is the old side of no pair.
\<close>

theorem batch_rename_first_match_witness:
  "filter isRename (onChange demoWatcher demoMatch demoUri crossedBatch) =
      [DidRename ''/ws/x.txt'' ''/ws/q.txt'', DidRename ''/ws/y.txt'' ''/ws/p.txt'']
   \<and> folderRenamePairs (change_files crossedBatch) = batchRename_spec (change_files crossedBatch)
   \<and> 3 \<le> length (change_files unmatchedBatch)
   \<and> filter isRename (onChange demoWatcher demoMatch demoUri unmatchedBatch) =
      [DidRename ''/ws/y.txt'' ''/ws/p.txt'']
   \<and> demoFile ''x.txt'' False False 5 100 \<notin> fst ` set (folderRenamePairs (change_files unmatchedBatch))"
proof -
  have c: "change_files crossedBatch =
      filter (keeps demoMatch (globPattern demoWatcher)) (change_files crossedBatch)"
    "[demoFile ''x.txt'' False False 5 100, demoFile ''y.txt'' False False 7 200]
       = filter (\<lambda>r. \<not> f_exists r) (change_files crossedBatch)"
    "[demoFile ''p.txt'' True True 7 200, demoFile ''q.txt'' True True 5 100]
       = filter f_exists (change_files crossedBatch)"
    "2 \<le> length (change_files crossedBatch)"
    by (simp_all add: demo_defs)
  have u: "change_files unmatchedBatch =
      filter (keeps demoMatch (globPattern demoWatcher)) (change_files unmatchedBatch)"
    "[demoFile ''x.txt'' False False 5 100, demoFile ''y.txt'' False False 7 200]
       = filter (\<lambda>r. \<not> f_exists r) (change_files unmatchedBatch)"
    "[demoFile ''p.txt'' True True 7 200, demoFile ''q.txt'' True True 9 300]
       = filter f_exists (change_files unmatchedBatch)"
    "2 \<le> length (change_files unmatchedBatch)"
    by (simp_all add: demo_defs unmatchedBatch_def)
  have l: "3 \<le> length (change_files crossedBatch)" "3 \<le> length (change_files unmatchedBatch)"
    by (simp_all add: demo_defs unmatchedBatch_def)
  have d: "distinct (map (\<lambda>v. (f_size v, f_mtime_ms v))
      [demoFile ''x.txt'' False False 5 100, demoFile ''y.txt'' False False 7 200])"
    by (simp add: demoFile_def)
  have x: "demoFile ''x.txt'' False False 5 100
      \<in> set [demoFile ''x.txt'' False False 5 100, demoFile ''y.txt'' False False 7 200]"
    "\<forall>n\<in>set [demoFile ''p.txt'' True True 7 200, demoFile ''q.txt'' True True 9 300].
       \<not> (f_size n = f_size (demoFile ''x.txt'' False False 5 100)
          \<and> f_mtime_ms n = f_mtime_ms (demoFile ''x.txt'' False False 5 100))"
    by (simp_all add: demoFile_def)
  have pc: "map (renameOf (demoUri (change_root crossedBatch))) (folderRenamePairs (change_files crossedBatch))
      = [DidRename ''/ws/x.txt'' ''/ws/q.txt'', DidRename ''/ws/y.txt'' ''/ws/p.txt'']"
    by (simp add: demo_defs)
  have pu: "map (renameOf (demoUri (change_root unmatchedBatch))) (folderRenamePairs (change_files unmatchedBatch))
      = [DidRename ''/ws/y.txt'' ''/ws/p.txt'']"
    by (simp add: demo_defs unmatchedBatch_def)
  have e: "length [a, b] = length [a', b']" for a b a' b' :: FileItem
    by simp
  note tc = batch_rename_first_match [OF c(1-4) e, where fileUri = demoUri]
  note tu = batch_rename_first_match [OF u(1-4) e, where fileUri = demoUri]
  from tc l(1) have "filter isRename (onChange demoWatcher demoMatch demoUri crossedBatch) =
      map (renameOf (demoUri (change_root crossedBatch))) (folderRenamePairs (change_files crossedBatch))"
    by simp
  then have 1: "filter isRename (onChange demoWatcher demoMatch demoUri crossedBatch) =
      [DidRename ''/ws/x.txt'' ''/ws/q.txt'', DidRename ''/ws/y.txt'' ''/ws/p.txt'']"
    by (simp only: pc)
  from tc d have 2: "folderRenamePairs (change_files crossedBatch) = batchRename_spec (change_files crossedBatch)"
    by simp
  from tu l(2) have "filter isRename (onChange demoWatcher demoMatch demoUri unmatchedBatch) =
      map (renameOf (demoUri (change_root unmatchedBatch))) (folderRenamePairs (change_files unmatchedBatch))"
    by simp
  then have 3: "filter isRename (onChange demoWatcher demoMatch demoUri unmatchedBatch) =
      [DidRename ''/ws/y.txt'' ''/ws/p.txt'']"
    by (simp only: pu)
  from tu x have 4: "demoFile ''x.txt'' False False 5 100
      \<notin> fst ` set (folderRenamePairs (change_files unmatchedBatch))"
    by blast
  from 1 2 l(2) 3 4 show ?thesis by blast
qed

text \<open>
  C1 as stated fails where two vanished records share size and modification
  time: the source pairs both with the first appeared record \<open>p\<close>, while the pairing of
  the specification gives \<open>q\<close> to the second.
\<close>

theorem batch_rename_reuses_appeared_record:
  "filter isRename (onChange demoWatcher demoMatch demoUri twinBatch) =
      [DidRename ''/ws/x.txt'' ''/ws/p.txt'', DidRename ''/ws/y.txt'' ''/ws/p.txt'']
   \<and> map (renameOf (demoUri ''/ws'')) (batchRename_spec (change_files twinBatch)) =
      [DidRename ''/ws/x.txt'' ''/ws/p.txt'', DidRename ''/ws/y.txt'' ''/ws/q.txt'']
   \<and> \<not> distinct (map snd (folderRenamePairs (change_files twinBatch)))"
  by (simp add: demo_defs onChange_def batchRename_spec_def)

section \<open>Properties of the disposal of a watcher\<close>

text \<open>
  After \<open>dispose\<close>, the create, change and rename emitters have no listener and the
  watcher has left the static set, but the delete emitter keeps its listeners: whatever
  change reaches the callback afterwards, its delete events, and only they, are observed.
\<close>

lemma fire_after_dispose:
  "fire (fst (FileSystemWatcher_dispose this w registry)) e =
     (case e of DidDelete u \<Rightarrow> map (\<lambda>l. (l, e)) (onDidDelete w) | _ \<Rightarrow> [])"
  by (cases e) (simp_all add: fire_def listenersOf_def FileSystemWatcher_dispose_def disposeAll_def)

lemma onChange_after_dispose:
  "onChange (fst (FileSystemWatcher_dispose this w registry)) minimatch fileUri change =
     onChange w minimatch fileUri change"
proof -
  have "classify (fst (FileSystemWatcher_dispose this w registry)) uri fs = classify w uri fs"
    for uri :: "string \<Rightarrow> 'a" and fs
    by (induction fs) (simp_all add: FileSystemWatcher_dispose_def)
  then show ?thesis
    by (simp add: onChange_def Let_def) (simp add: FileSystemWatcher_dispose_def)
qed

lemma dispose_leaves_registry: "this \<notin> set (fst (snd (FileSystemWatcher_dispose this w registry)))"
  by (simp add: FileSystemWatcher_dispose_def)

text \<open>
  C4, evaluated. The watcher \<open>7\<close> of the static set \<open>{7, 8}\<close>, with the listener \<open>3\<close> on its
  delete emitter, is disposed; then the batch of a renamed file reaches its callback. The
  watcher has left the set and the subscription \<open>9\<close> is released, but the listener \<open>3\<close> is
  still there and observes the delete event.
\<close>

theorem dispose_keeps_delete_listeners:
  "fst (snd (FileSystemWatcher_dispose 7 demoWatcher [7, 8])) = [8]
   \<and> snd (snd (FileSystemWatcher_dispose 7 demoWatcher [7, 8])) = [9]
   \<and> onDidDelete (fst (FileSystemWatcher_dispose 7 demoWatcher [7, 8])) = [3]
   \<and> observed (fst (FileSystemWatcher_dispose 7 demoWatcher [7, 8])) demoMatch demoUri renamedPair
       = [(3, DidDelete ''/ws/a.txt'')]"
  by (simp add: FileSystemWatcher_dispose_def disposeAll_def observed_def fire_def listenersOf_def
      onChange_def demo_defs)

section \<open>Properties of the manager\<close>

subsection \<open>What each operation leaves alone\<close>

lemma createClient_fields [simp]:
  "clientsMap (createClient r s) = clientsMap s"
  "disposed (createClient r s) = disposed s"
  "resolved (createClient r s) = resolved s"
  "waiters (createClient r s) = waiters s"
  "watchmanPath (createClient r s) = watchmanPath s"
  "disposables (createClient r s) = disposables s"
  by (simp_all add: createClient_def)

lemma fold_createClient_fields [simp]:
  "clientsMap (fold createClient rs s) = clientsMap s"
  "disposed (fold createClient rs s) = disposed s"
  "resolved (fold createClient rs s) = resolved s"
  "waiters (fold createClient rs s) = waiters s"
  "watchmanPath (fold createClient rs s) = watchmanPath s"
  "disposables (fold createClient rs s) = disposables s"
  by (induction rs arbitrary: s; simp)+

lemma removeClient_fields [simp]:
  "clientsMap (removeClient r s) = clientsMap s"
  "disposed (removeClient r s) = disposed s"
  "resolved (removeClient r s) = resolved s"
  "waiters (removeClient r s) = waiters s"
  "pending (removeClient r s) = pending s"
  "creatingRoots (removeClient r s) = creatingRoots s"
  "requested (removeClient r s) = requested s"
  "disposables (removeClient r s) = disposables s"
  by (simp_all add: removeClient_def split: option.splits)

lemma fold_removeClient_fields [simp]:
  "clientsMap (fold removeClient rs s) = clientsMap s"
  "disposed (fold removeClient rs s) = disposed s"
  "resolved (fold removeClient rs s) = resolved s"
  "waiters (fold removeClient rs s) = waiters s"
  "pending (fold removeClient rs s) = pending s"
  "creatingRoots (fold removeClient rs s) = creatingRoots s"
  "requested (fold removeClient rs s) = requested s"
  "disposables (fold removeClient rs s) = disposables s"
  by (induction rs arbitrary: s; simp)+

lemma onDidChangeWorkspaceFolders_fields [simp]:
  "clientsMap (onDidChangeWorkspaceFolders added removed s) = clientsMap s"
  "disposed (onDidChangeWorkspaceFolders added removed s) = disposed s"
  "resolved (onDidChangeWorkspaceFolders added removed s) = resolved s"
  "waiters (onDidChangeWorkspaceFolders added removed s) = waiters s"
  "disposables (onDidChangeWorkspaceFolders added removed s) = disposables s"
  by (simp_all add: onDidChangeWorkspaceFolders_def)

text \<open>The same for any number of runs of the listener.\<close>

lemma listeners_fields [simp]:
  "clientsMap ((onDidChangeWorkspaceFolders added removed ^^ n) s) = clientsMap s"
  "disposed ((onDidChangeWorkspaceFolders added removed ^^ n) s) = disposed s"
  "resolved ((onDidChangeWorkspaceFolders added removed ^^ n) s) = resolved s"
  "waiters ((onDidChangeWorkspaceFolders added removed ^^ n) s) = waiters s"
  "disposables ((onDidChangeWorkspaceFolders added removed ^^ n) s) = disposables s"
  by (induction n; simp)+

lemma funpow_preserves: "(\<And>x. P x \<Longrightarrow> P (f x)) \<Longrightarrow> P x \<Longrightarrow> P ((f ^^ n) x)"
  by (induction n) simp_all

lemmas step_defs =
  attach_def Let_def createClient_resume_def
  createClient_catch_def fireDidCreateClient_def waitClient_def createFileSystemWatcher_def
  dispose_def

lemmas manager_defs =
  step_defs run_def onDidChangeWorkspaceFolders_def createClient_def removeClient_def hasClient_def liveClients_def
  demoManager_def newManager_def List.map_filter_def

lemma keys_step: "fst ` set (clientsMap s) \<subseteq> fst ` set (clientsMap (step a s))"
  by (cases a) (auto simp: step_defs dom_update split: option.splits)

lemma keys_run: "fst ` set (clientsMap s) \<subseteq> fst ` set (clientsMap (run acts s))"
proof (induction acts arbitrary: s)
  case Nil
  then show ?case by (simp add: run_def)
next
  case (Cons a acts)
  have "fst ` set (clientsMap (step a s)) \<subseteq> fst ` set (clientsMap (run acts (step a s)))"
    by (rule Cons.IH)
  with keys_step [of s a] show ?case by (auto simp: run_def)
qed

lemma disposed_step: "disposed s \<Longrightarrow> disposed (step a s)"
  by (cases a) (auto simp: step_defs split: option.splits)

lemma disposed_run: "disposed s \<Longrightarrow> disposed (run acts s)"
  by (induction acts arbitrary: s) (simp_all add: run_def disposed_step)

lemma distinct_keys_step:
  "distinct (map fst (clientsMap s)) \<Longrightarrow> distinct (map fst (clientsMap (step a s)))"
  by (cases a) (auto simp: step_defs distinct_update split: option.splits)

lemma distinct_keys_run:
  "distinct (map fst (clientsMap s)) \<Longrightarrow> distinct (map fst (clientsMap (run acts s)))"
  by (induction acts arbitrary: s) (simp_all add: run_def distinct_keys_step)

subsection \<open>The invariants\<close>

lemma consistent_new: "consistent (newManager path)"
  by (simp add: consistent_def newManager_def)

lemma consistent_createClient: "consistent s \<Longrightarrow> consistent (createClient r s)"
  by (auto simp: consistent_def createClient_def hasClient_def)

lemma consistent_fold_createClient: "consistent s \<Longrightarrow> consistent (fold createClient rs s)"
  by (induction rs arbitrary: s) (simp_all add: consistent_createClient)

lemma consistent_fold_removeClient: "consistent s \<Longrightarrow> consistent (fold removeClient rs s)"
  by (simp add: consistent_def)

lemma consistent_channel: "consistent (s\<lparr>channel := b\<rparr>) = consistent s"
  by (simp add: consistent_def)

lemma consistent_disposables: "consistent (s\<lparr>disposables := b\<rparr>) = consistent s"
  by (simp add: consistent_def)

lemma consistent_resume:
  assumes "consistent s" and "r \<in> set (pending s)"
  shows "consistent (createClient_resume r c (s\<lparr>pending := remove1 r (pending s)\<rparr>))"
proof (cases "disposed s")
  case True
  with assms set_remove1_subset [of r "pending s"] show ?thesis
    by (cases c) (auto simp: consistent_def createClient_resume_def createClient_catch_def Let_def)
next
  case False
  with assms have d: "distinct (pending s)" and sub: "set (pending s) \<subseteq> creatingRoots s"
    and dis: "set (pending s) \<inter> fst ` set (clientsMap s) = {}"
    and res: "set (resolved s) \<subseteq> fst ` set (clientsMap s)"
    by (auto simp: consistent_def)
  from d have sr: "set (remove1 r (pending s)) = set (pending s) - {r}" by simp
  from d have dr: "distinct (remove1 r (pending s))" by simp
  show ?thesis
    using False sr dr sub dis res
    by (cases c) (auto simp: consistent_def createClient_resume_def fireDidCreateClient_def
        Let_def dom_update)
qed

lemma consistent_catch:
  assumes "consistent s"
  shows "consistent (createClient_catch msg (s\<lparr>pending := remove1 r (pending s)\<rparr>))"
  using assms set_remove1_subset [of r "pending s"]
  by (auto simp: consistent_def createClient_catch_def)

lemma consistent_step:
  assumes "consistent s"
  shows "consistent (step a s)"
proof (cases a)
  case (Attach roots)
  from assms have "consistent (fold createClient roots (s\<lparr>channel := True\<rparr>))"
    by (simp add: consistent_fold_createClient consistent_channel)
  then show ?thesis using Attach by (simp add: attach_def Let_def consistent_disposables)
next
  case (FoldersChanged added removed)
  have "consistent ((onDidChangeWorkspaceFolders added removed ^^ disposables s) s)"
  proof (rule funpow_preserves)
    fix x assume "consistent x"
    then show "consistent (onDidChangeWorkspaceFolders added removed x)"
      by (simp add: onDidChangeWorkspaceFolders_def consistent_fold_createClient
          consistent_fold_removeClient)
  qed (rule assms)
  with FoldersChanged show ?thesis by simp
next
  case (ClientCreated r c)
  with assms show ?thesis by (simp add: consistent_resume)
next
  case (ClientFailed r msg)
  with assms show ?thesis by (simp add: consistent_catch)
next
  case (WaitClient r)
  with assms show ?thesis by (auto simp: consistent_def waitClient_def hasClient_def)
next
  case (CreateFileSystemWatcher wid)
  with assms show ?thesis by (simp add: consistent_def createFileSystemWatcher_def)
next
  case (DisposeWatcher wid)
  with assms show ?thesis by (simp add: consistent_def)
next
  case Dispose
  with assms show ?thesis by (simp add: consistent_def dispose_def)
qed

lemma consistent_run: "consistent s \<Longrightarrow> consistent (run acts s)"
  by (induction acts arbitrary: s) (simp_all add: run_def consistent_step)

lemma abandoned_createClient: "abandoned root s \<Longrightarrow> abandoned root (createClient r s)"
  by (auto simp: abandoned_def createClient_def)

lemma abandoned_fold_createClient: "abandoned root s \<Longrightarrow> abandoned root (fold createClient rs s)"
  by (induction rs arbitrary: s) (simp_all add: abandoned_createClient)

lemma abandoned_step:
  assumes "abandoned root s"
  shows "abandoned root (step a s)"
proof (cases a)
  case (Attach roots)
  from assms have "abandoned root (s\<lparr>channel := True\<rparr>)" by (simp add: abandoned_def)
  then have "abandoned root (fold createClient roots (s\<lparr>channel := True\<rparr>))"
    by (rule abandoned_fold_createClient)
  then show ?thesis using Attach by (simp add: attach_def Let_def abandoned_def)
next
  case (FoldersChanged added removed)
  have "abandoned root ((onDidChangeWorkspaceFolders added removed ^^ disposables s) s)"
  proof (rule funpow_preserves)
    fix x assume "abandoned root x"
    then have "abandoned root (fold createClient added x)"
      by (rule abandoned_fold_createClient)
    then show "abandoned root (onDidChangeWorkspaceFolders added removed x)"
      by (simp add: onDidChangeWorkspaceFolders_def abandoned_def)
  qed (rule assms)
  with FoldersChanged show ?thesis by simp
next
  case (ClientCreated r c)
  with assms show ?thesis
    by (cases c) (auto simp: abandoned_def createClient_resume_def createClient_catch_def
        fireDidCreateClient_def Let_def dom_update dest: notin_set_remove1)
next
  case (ClientFailed r msg)
  with assms show ?thesis
    by (auto simp: abandoned_def createClient_catch_def dest: notin_set_remove1)
next
  case (WaitClient r)
  with assms show ?thesis by (auto simp: abandoned_def waitClient_def hasClient_def)
next
  case (CreateFileSystemWatcher wid)
  with assms show ?thesis by (simp add: abandoned_def createFileSystemWatcher_def)
next
  case (DisposeWatcher wid)
  with assms show ?thesis by (simp add: abandoned_def)
next
  case Dispose
  with assms show ?thesis by (simp add: abandoned_def dispose_def)
qed

lemma abandoned_run: "abandoned root s \<Longrightarrow> abandoned root (run acts s)"
  by (induction acts arbitrary: s) (simp_all add: run_def abandoned_step)

lemma abandoned_after_failure:
  assumes "consistent s" and "root \<in> set (pending s)"
  shows "abandoned root (step (ClientFailed root msg) s)"
  using assms by (auto simp: abandoned_def consistent_def createClient_catch_def)

subsection \<open>A request that fails\<close>

text \<open>
  C3, evaluated. A manager is attached with the workspace folder \<open>/ws\<close> and the request of
  the factory for it fails with the message \<open>boom\<close>. The error reaches the logger and the
  output channel and no connection is stored, but \<open>/ws\<close> is still in \<open>creatingRoots\<close>:
  line 69 is skipped by the exception and the \<open>catch\<close> block does not delete the mark. The
  stale mark is what makes a later request for \<open>/ws\<close> return at line 65.
\<close>

theorem failed_request_keeps_creating_mark:
  "creatingRoots (run [Attach [''/ws''], ClientFailed ''/ws'' ''boom''] demoManager) = {''/ws''}
   \<and> errors (run [Attach [''/ws''], ClientFailed ''/ws'' ''boom''] demoManager) = [''boom'']
   \<and> channelLines (run [Attach [''/ws''], ClientFailed ''/ws'' ''boom''] demoManager)
       = [''Error on create watchman client:boom'']
   \<and> clientsMap (run [Attach [''/ws''], ClientFailed ''/ws'' ''boom''] demoManager) = []
   \<and> requested (run [Attach [''/ws''], ClientFailed ''/ws'' ''boom'',
         FoldersChanged [''/ws''] []] demoManager) = [''/ws'']"
  by (simp add: manager_defs)

subsection \<open>Requests for the same root\<close>

lemma createClient_idem: "createClient root (createClient root s) = createClient root s"
  by (simp add: createClient_def hasClient_def)

lemma createClient_funpow: "0 < n \<Longrightarrow> (createClient root ^^ n) s = createClient root s"
proof (induction n)
  case 0
  then show ?case by simp
next
  case (Suc n)
  show ?case
  proof (cases n)
    case 0
    then show ?thesis by simp
  next
    case (Suc m)
    with Suc.IH have "(createClient root ^^ n) s = createClient root s" by simp
    then show ?thesis by (simp add: createClient_idem)
  qed
qed

lemma update_one_entry:
  "k \<notin> fst ` set al \<Longrightarrow> length (filter (\<lambda>e. fst e = k) (AList.update k v al)) = 1"
  by (induction al) auto

text \<open>
  C5, as the source has it. In a manager that has a path to the watchman binary, for a
  root that is neither marked nor mapped, \<open>n > 0\<close> requests made before any of them
  settles call the external factory exactly once and leave one pending request; when it
  settles with a client, the map has one entry for the root (none if the manager was
  disposed). A request for a root that is marked or mapped returns the state unchanged.
  In every state reached from a new manager the roots of the map are distinct. In a
  manager without a path to the watchman binary every request returns the state
  unchanged.
\<close>

theorem createClient_dedup:
  assumes "watchmanPath s \<noteq> None" and "root \<notin> creatingRoots s" and "\<not> hasClient root s"
    and "0 < n"
  shows "requested ((createClient root ^^ n) s) = requested s @ [root]
       \<and> pending ((createClient root ^^ n) s) = pending s @ [root]
       \<and> length (filter (\<lambda>e. fst e = root)
            (clientsMap (step (ClientCreated root c) ((createClient root ^^ n) s))))
          = (if disposed s then 0 else 1)
       \<and> (\<forall>t. root \<in> creatingRoots t \<or> hasClient root t \<longrightarrow> createClient root t = t)
       \<and> (\<forall>path acts. distinct (map fst (clientsMap (run acts (newManager path)))))
       \<and> (\<forall>t r. watchmanPath t = None \<longrightarrow> createClient r t = t)"
proof -
  have n: "(createClient root ^^ n) s = createClient root s"
    using assms(4) by (rule createClient_funpow)
  have c: "createClient root s =
      s\<lparr>creatingRoots := insert root (creatingRoots s), requested := requested s @ [root],
        pending := pending s @ [root]\<rparr>"
    using assms(1-3) by (auto simp: createClient_def)
  have k: "root \<notin> fst ` set (clientsMap s)"
    using assms(3) by (simp add: hasClient_def)
  have 3: "length (filter (\<lambda>e. fst e = root)
            (clientsMap (step (ClientCreated root c) (createClient root s))))
          = (if disposed s then 0 else 1)"
  proof (cases "disposed s")
    case True
    have "filter (\<lambda>e. fst e = root) (clientsMap s) = []"
      using k by (auto simp: filter_empty_conv)
    with True show ?thesis
      by (cases c) (simp_all add: c createClient_resume_def createClient_catch_def Let_def)
  next
    case False
    with update_one_entry [OF k, of c] show ?thesis
      by (cases c) (simp_all add: c createClient_resume_def fireDidCreateClient_def Let_def)
  qed
  have 4: "\<forall>t. root \<in> creatingRoots t \<or> hasClient root t \<longrightarrow> createClient root t = t"
    by (simp add: createClient_def)
  have 5: "\<forall>path acts. distinct (map fst (clientsMap (run acts (newManager path))))"
    by (simp add: distinct_keys_run newManager_def)
  have 6: "\<forall>t r. watchmanPath t = None \<longrightarrow> createClient r t = t"
    by (simp add: createClient_def)
  from 3 4 5 6 show ?thesis by (simp add: n c)
qed

text \<open>
  Three requests for \<open>/ws\<close>: one call of the factory, and one entry once it settles; a
  fourth request changes nothing, and a manager without a path never calls the factory.
\<close>

theorem createClient_dedup_witness:
  "watchmanPath demoManager \<noteq> None
   \<and> requested ((createClient ''/ws'' ^^ 3) demoManager) = [''/ws'']
   \<and> pending ((createClient ''/ws'' ^^ 3) demoManager) = [''/ws'']
   \<and> length (filter (\<lambda>e. fst e = ''/ws'')
        (clientsMap (step (ClientCreated ''/ws'' (Some 1)) ((createClient ''/ws'' ^^ 3) demoManager))))
      = 1
   \<and> ''/ws'' \<in> creatingRoots (createClient ''/ws'' demoManager)
   \<and> createClient ''/ws'' (createClient ''/ws'' demoManager) = createClient ''/ws'' demoManager
   \<and> createClient ''/ws'' (newManager None) = newManager None"
proof -
  have h: "watchmanPath demoManager \<noteq> None" "''/ws'' \<notin> creatingRoots demoManager"
    "\<not> hasClient ''/ws'' demoManager" "0 < (3::nat)"
    by (simp_all add: demoManager_def newManager_def hasClient_def)
  have e: "requested demoManager = []" "pending demoManager = []" "\<not> disposed demoManager"
    by (simp_all add: demoManager_def newManager_def)
  have m: "''/ws'' \<in> creatingRoots (createClient ''/ws'' demoManager)"
    by (simp add: manager_defs)
  have n: "watchmanPath (newManager None) = None"
    by (simp add: newManager_def)
  note th = createClient_dedup [OF h, where c = "Some 1"]
  from th have "requested ((createClient ''/ws'' ^^ 3) demoManager) = requested demoManager @ [''/ws'']"
    by (rule conjunct1)
  moreover from th have "pending ((createClient ''/ws'' ^^ 3) demoManager) = pending demoManager @ [''/ws'']"
    by blast
  moreover from th have "length (filter (\<lambda>e. fst e = ''/ws'')
        (clientsMap (step (ClientCreated ''/ws'' (Some 1)) ((createClient ''/ws'' ^^ 3) demoManager))))
      = (if disposed demoManager then 0 else 1)"
    by blast
  moreover from th m have "createClient ''/ws'' (createClient ''/ws'' demoManager) = createClient ''/ws'' demoManager"
    by blast
  moreover from th n have "createClient ''/ws'' (newManager None) = newManager None"
    by blast
  ultimately show ?thesis
    using h(1) m by (simp only: e append_Nil if_False simp_thms)
qed

text \<open>
  C5 as stated fails for a manager without a path to the watchman binary
  (line 64): two requests for \<open>/ws\<close> call the factory not once but never.
\<close>

theorem createClient_without_watchman_path:
  "requested (createClient ''/ws'' (createClient ''/ws'' (newManager None))) = []
   \<and> pending (createClient ''/ws'' (createClient ''/ws'' (newManager None))) = []
   \<and> requested (run [Attach [''/ws'', ''/ws'']] (newManager None)) \<noteq> [''/ws'']"
  by (simp add: manager_defs)

subsection \<open>A request that settles after the disposal\<close>

text \<open>
  C6. In a state reached through a disposal of the manager, when a pending request for a
  root settles with a client, that client is disposed, and the map, the calls of
  \<open>listen\<close>, the resolved promises and the waiters are what they were: the client is
  neither stored, nor attached to a watcher, nor announced.
\<close>

theorem client_created_after_dispose_is_discarded:
  assumes "s = run (before @ Dispose # between) start" and "root \<in> set (pending s)"
    and "s' = step (ClientCreated root (Some c)) s"
  shows "disposedClients s' = disposedClients s @ [c]
       \<and> clientsMap s' = clientsMap s
       \<and> listened s' = listened s
       \<and> resolved s' = resolved s \<and> waiters s' = waiters s
       \<and> creatingRoots s' = creatingRoots s - {root}"
proof -
  have "disposed (run [Dispose] (run before start))"
    by (simp add: run_def dispose_def)
  then have "disposed (run between (run [Dispose] (run before start)))"
    by (rule disposed_run)
  then have "disposed s"
    using assms(1) by (simp add: run_def)
  with assms(2,3) show ?thesis
    by (simp add: createClient_resume_def Let_def)
qed

text \<open>
  A watcher exists, the manager is attached with \<open>/ws\<close>, somebody waits for \<open>/ws\<close>, the
  manager is disposed, and then the request settles with the client \<open>5\<close>.
\<close>

theorem client_created_after_dispose_is_discarded_witness:
  "''/ws'' \<in> set (pending (run ([CreateFileSystemWatcher 1, Attach [''/ws'']] @ Dispose # [WaitClient ''/ws''])
       demoManager))
   \<and> disposedClients (step (ClientCreated ''/ws'' (Some 5))
       (run ([CreateFileSystemWatcher 1, Attach [''/ws'']] @ Dispose # [WaitClient ''/ws'']) demoManager)) = [5]
   \<and> clientsMap (step (ClientCreated ''/ws'' (Some 5))
       (run ([CreateFileSystemWatcher 1, Attach [''/ws'']] @ Dispose # [WaitClient ''/ws'']) demoManager)) = []
   \<and> listened (step (ClientCreated ''/ws'' (Some 5))
       (run ([CreateFileSystemWatcher 1, Attach [''/ws'']] @ Dispose # [WaitClient ''/ws'']) demoManager)) = []
   \<and> resolved (step (ClientCreated ''/ws'' (Some 5))
       (run ([CreateFileSystemWatcher 1, Attach [''/ws'']] @ Dispose # [WaitClient ''/ws'']) demoManager)) = []"
  using client_created_after_dispose_is_discarded [where start = demoManager
      and before = "[CreateFileSystemWatcher 1, Attach [''/ws'']]" and between = "[WaitClient ''/ws'']"
      and root = "''/ws''" and c = 5, OF refl _ refl]
  by (simp add: manager_defs)

subsection \<open>Waiting for a connection\<close>

text \<open>
  C9. In a state reached from a new manager: \<open>waitClient\<close> for a root with an entry in
  the map resolves at once; for a root without one it registers a waiter and resolves
  nothing. A step resolves more promises for a root only when it is such a call of
  \<open>waitClient\<close>, or when a pending request for exactly that root settles without error
  while the manager is not disposed; and such a settlement resolves all waiters of the
  root. After a pending request for a root has failed, no promise of \<open>waitClient\<close> for
  that root is ever resolved, whatever happens next.
\<close>

theorem waitClient_resolution:
  assumes "s = run acts (newManager path)"
  shows "(hasClient root s \<longrightarrow> waitClient root s = s\<lparr>resolved := resolved s @ [root]\<rparr>)
       \<and> (\<not> hasClient root s \<longrightarrow> waitClient root s = s\<lparr>waiters := waiters s @ [root]\<rparr>)
       \<and> (\<forall>a. count_list (resolved s) root < count_list (resolved (step a s)) root \<longrightarrow>
              (a = WaitClient root \<and> hasClient root s) \<or>
              (\<exists>c. a = ClientCreated root c \<and> root \<in> set (pending s) \<and> \<not> disposed s))
       \<and> (root \<in> set (pending s) \<and> \<not> disposed s \<longrightarrow>
            (\<forall>c. resolved (step (ClientCreated root c) s)
                    = resolved s @ filter (\<lambda>r. r = root) (waiters s)))
       \<and> (root \<in> set (pending s) \<longrightarrow>
            (\<forall>msg more. root \<notin> set (resolved (run more (step (ClientFailed root msg) s)))))"
proof -
  have 3: "(a = WaitClient root \<and> hasClient root s) \<or>
           (\<exists>c. a = ClientCreated root c \<and> root \<in> set (pending s) \<and> \<not> disposed s)"
    if "count_list (resolved s) root < count_list (resolved (step a s)) root" for a
  proof (cases a)
    case (ClientCreated r c)
    have "r = root \<and> root \<in> set (pending s) \<and> \<not> disposed s"
    proof (rule ccontr)
      assume "\<not> (r = root \<and> root \<in> set (pending s) \<and> \<not> disposed s)"
      then have "count_list (resolved (step a s)) root = count_list (resolved s) root"
        using ClientCreated
        by (cases c) (auto simp: createClient_resume_def createClient_catch_def
            fireDidCreateClient_def Let_def count_list_0_iff)
      with that show False by simp
    qed
    with ClientCreated show ?thesis by simp
  next
    case (WaitClient r)
    with that show ?thesis by (auto simp: waitClient_def split: if_splits)
  qed (use that in \<open>auto simp: attach_def Let_def
      createClient_catch_def createFileSystemWatcher_def dispose_def split: if_splits\<close>)
  have 4: "resolved (step (ClientCreated root c) s) = resolved s @ filter (\<lambda>r. r = root) (waiters s)"
    if "root \<in> set (pending s) \<and> \<not> disposed s" for c
    using that by (cases c) (simp_all add: createClient_resume_def fireDidCreateClient_def Let_def)
  have 5: "root \<notin> set (resolved (run more (step (ClientFailed root msg) s)))"
    if "root \<in> set (pending s)" for msg more
  proof -
    have "consistent s"
      using assms by (simp add: consistent_run consistent_new)
    then have "abandoned root (step (ClientFailed root msg) s)"
      using that by (rule abandoned_after_failure)
    then have "abandoned root (run more (step (ClientFailed root msg) s))"
      by (rule abandoned_run)
    then show ?thesis by (simp add: abandoned_def)
  qed
  from 3 4 5 show ?thesis by (simp add: waitClient_def)
qed

text \<open>
  Two workspace folders; somebody waits for each. The request for \<open>/b\<close> fails: whoever
  waits for \<open>/b\<close>, before or after, is not resolved by the success of \<open>/a\<close>, nor by \<open>/b\<close>
  being added again. The request for \<open>/a\<close> settles: its waiter resolves, and so does at
  once whoever waits for \<open>/a\<close> from then on.
\<close>

theorem waitClient_resolution_witness:
  "''/b'' \<in> set (pending twoRoots)
   \<and> ''/b'' \<notin> set (resolved
        (run [WaitClient ''/b'', ClientCreated ''/a'' (Some 1), FoldersChanged [''/b''] []]
          (step (ClientFailed ''/b'' ''boom'') twoRoots)))
   \<and> ''/a'' \<in> set (pending twoRoots) \<and> \<not> disposed twoRoots
   \<and> resolved (step (ClientCreated ''/a'' (Some 1)) twoRoots) = [''/a'']
   \<and> hasClient ''/a'' oneReady
   \<and> resolved (waitClient ''/a'' oneReady) = [''/a'', ''/a'']"
proof -
  have p: "''/b'' \<in> set (pending twoRoots)" "''/a'' \<in> set (pending twoRoots)" "\<not> disposed twoRoots"
    by (simp_all add: twoRoots_def manager_defs)
  have e: "resolved twoRoots = []" "waiters twoRoots = [''/a'', ''/b'']"
    by (simp_all add: twoRoots_def manager_defs)
  have h: "hasClient ''/a'' oneReady" "resolved oneReady = [''/a'']"
    by (simp_all add: oneReady_def manager_defs)
  note b = waitClient_resolution [OF twoRoots_def, where root = "''/b''"]
  note a = waitClient_resolution [OF twoRoots_def, where root = "''/a''"]
  note r = waitClient_resolution [OF oneReady_def, where root = "''/a''"]
  from b p(1) have "\<forall>msg more. ''/b'' \<notin> set (resolved (run more (step (ClientFailed ''/b'' msg) twoRoots)))"
    by blast
  then have 1: "''/b'' \<notin> set (resolved
        (run [WaitClient ''/b'', ClientCreated ''/a'' (Some 1), FoldersChanged [''/b''] []]
          (step (ClientFailed ''/b'' ''boom'') twoRoots)))"
    by blast
  from a p(2,3) have "resolved (step (ClientCreated ''/a'' (Some 1)) twoRoots)
      = resolved twoRoots @ filter (\<lambda>r. r = ''/a'') (waiters twoRoots)"
    by blast
  then have 2: "resolved (step (ClientCreated ''/a'' (Some 1)) twoRoots) = [''/a'']"
    by (simp add: e)
  from r h(1) have "waitClient ''/a'' oneReady = oneReady\<lparr>resolved := resolved oneReady @ [''/a'']\<rparr>"
    by blast
  then have 3: "resolved (waitClient ''/a'' oneReady) = [''/a'', ''/a'']"
    by (simp add: h(2))
  from p 1 2 h(1) 3 show ?thesis by blast
qed

subsection \<open>The entries of the map\<close>

lemma removal_disposes:
  assumes "map_of (clientsMap s) root = Some (Some c)"
  shows "disposedClients ((onDidChangeWorkspaceFolders [] [root] ^^ n) s)
           = disposedClients s @ replicate n c"
proof (induction n)
  case 0
  show ?case by simp
next
  case (Suc n)
  have "map_of (clientsMap ((onDidChangeWorkspaceFolders [] [root] ^^ n) s)) root = Some (Some c)"
    using assms by simp
  then have "disposedClients
        (onDidChangeWorkspaceFolders [] [root] ((onDidChangeWorkspaceFolders [] [root] ^^ n) s))
      = disposedClients ((onDidChangeWorkspaceFolders [] [root] ^^ n) s) @ [c]"
    by (simp add: onDidChangeWorkspaceFolders_def removeClient_def)
  with Suc show ?case by (simp add: replicate_append_same)
qed

lemma removal_requested:
  "requested ((onDidChangeWorkspaceFolders [] removed ^^ n) s) = requested s"
  by (induction n) (simp_all add: onDidChangeWorkspaceFolders_def)

lemma readd_requested:
  assumes "hasClient root s"
  shows "requested ((onDidChangeWorkspaceFolders [root] [] ^^ n) s) = requested s"
proof (induction n)
  case 0
  show ?case by simp
next
  case (Suc n)
  from assms have "hasClient root ((onDidChangeWorkspaceFolders [root] [] ^^ n) s)"
    by (simp add: hasClient_def)
  then have "createClient root ((onDidChangeWorkspaceFolders [root] [] ^^ n) s)
      = (onDidChangeWorkspaceFolders [root] [] ^^ n) s"
    by (simp add: createClient_def)
  then have "requested
        (onDidChangeWorkspaceFolders [root] [] ((onDidChangeWorkspaceFolders [root] [] ^^ n) s))
      = requested ((onDidChangeWorkspaceFolders [root] [] ^^ n) s)"
    by (simp add: onDidChangeWorkspaceFolders_def)
  with Suc show ?case by simp
qed

text \<open>
  C10. No step removes a root from the map. The removal of a workspace folder leaves the
  map as it is and disposes the client of the root, once for each listener that the
  calls of \<open>attach\<close> registered; the disposal of the manager leaves the map as it is. So
  once a root has an entry, after any further steps it still has one, a request for it
  returns the state unchanged, \<open>waitClient\<close> for it resolves at once, and removing the
  root and adding it again calls the factory no more.
\<close>

theorem clientsMap_entries_stay:
  "fst ` set (clientsMap s) \<subseteq> fst ` set (clientsMap (step a s))
   \<and> clientsMap (step (FoldersChanged [] [root]) s) = clientsMap s
   \<and> (map_of (clientsMap s) root = Some (Some c) \<longrightarrow>
        disposedClients (step (FoldersChanged [] [root]) s)
          = disposedClients s @ replicate (disposables s) c)
   \<and> clientsMap (step Dispose s) = clientsMap s
   \<and> (hasClient root s \<longrightarrow>
        (\<forall>acts. hasClient root (run acts s)
           \<and> createClient root (run acts s) = run acts s
           \<and> waitClient root (run acts s) = (run acts s)\<lparr>resolved := resolved (run acts s) @ [root]\<rparr>
           \<and> requested (run [FoldersChanged [] [root], FoldersChanged [root] []] (run acts s))
               = requested (run acts s)))"
proof -
  have 5: "hasClient root (run acts s)
           \<and> createClient root (run acts s) = run acts s
           \<and> waitClient root (run acts s) = (run acts s)\<lparr>resolved := resolved (run acts s) @ [root]\<rparr>
           \<and> requested (run [FoldersChanged [] [root], FoldersChanged [root] []] (run acts s))
               = requested (run acts s)"
    if "hasClient root s" for acts
  proof -
    from that keys_run [of s acts] have h: "hasClient root (run acts s)"
      by (auto simp: hasClient_def)
    then have c: "createClient root (run acts s) = run acts s"
      by (simp add: createClient_def)
    from h have "hasClient root (step (FoldersChanged [] [root]) (run acts s))"
      by (simp add: hasClient_def)
    then have "requested (step (FoldersChanged [root] []) (step (FoldersChanged [] [root]) (run acts s)))
        = requested (step (FoldersChanged [] [root]) (run acts s))"
      by (simp add: readd_requested)
    also have "\<dots> = requested (run acts s)"
      by (simp add: removal_requested)
    finally have "requested (run [FoldersChanged [] [root], FoldersChanged [root] []] (run acts s))
               = requested (run acts s)"
      by (simp add: run_def)
    with h c show ?thesis by (simp add: waitClient_def)
  qed
  have 3: "disposedClients (step (FoldersChanged [] [root]) s)
             = disposedClients s @ replicate (disposables s) c"
    if "map_of (clientsMap s) root = Some (Some c)"
    using that by (simp add: removal_disposes)
  have 2: "clientsMap (step (FoldersChanged [] [root]) s) = clientsMap s"
    by simp
  have 4: "clientsMap (step Dispose s) = clientsMap s"
    by (simp add: dispose_def)
  from keys_step [of s a] 2 3 4 5 show ?thesis by blast
qed

text \<open>
  The manager is attached twice with \<open>/ws\<close>, and \<open>/ws\<close> gets the client \<open>1\<close>; then the
  folder is removed, which disposes the client once for each of the two listeners, added
  again, and the manager is disposed. The entry is still there, and a request for \<open>/ws\<close>
  changes nothing.
\<close>

theorem clientsMap_entries_stay_witness:
  "hasClient ''/ws'' attachedTwice
   \<and> map_of (clientsMap attachedTwice) ''/ws'' = Some (Some 1)
   \<and> disposedClients (step (FoldersChanged [] [''/ws'']) attachedTwice) = [1, 1]
   \<and> hasClient ''/ws''
        (run [FoldersChanged [] [''/ws''], FoldersChanged [''/ws''] [], Dispose] attachedTwice)
   \<and> createClient ''/ws''
        (run [FoldersChanged [] [''/ws''], FoldersChanged [''/ws''] [], Dispose] attachedTwice)
     = run [FoldersChanged [] [''/ws''], FoldersChanged [''/ws''] [], Dispose] attachedTwice"
proof -
  have h: "hasClient ''/ws'' attachedTwice"
    by (simp add: attachedTwice_def manager_defs)
  have m: "map_of (clientsMap attachedTwice) ''/ws'' = Some (Some 1)"
    by (simp add: attachedTwice_def manager_defs)
  have d: "disposedClients attachedTwice = []" "disposables attachedTwice = Suc (Suc 0)"
    by (simp_all add: attachedTwice_def manager_defs)
  note th = clientsMap_entries_stay [where root = "''/ws''" and c = 1 and s = attachedTwice]
  from th m have "disposedClients (step (FoldersChanged [] [''/ws'']) attachedTwice)
      = disposedClients attachedTwice @ replicate (disposables attachedTwice) 1"
    by blast
  then have 1: "disposedClients (step (FoldersChanged [] [''/ws'']) attachedTwice) = [1, 1]"
    by (simp only: d append_Nil replicate.simps)
  from th h have "\<forall>acts. hasClient ''/ws'' (run acts attachedTwice)
      \<and> createClient ''/ws'' (run acts attachedTwice) = run acts attachedTwice"
    by blast
  with h m 1 show ?thesis by blast
qed

end
